theory Spec2Isabelle
  imports
    Main
    "HOL-Library.AList"
    "HOL-Library.Sublist"
    "HOL-Library.Multiset"
    "HOL-Library.Char_ord"
    "HOL-Library.List_Lexorder"
    "HOL-Library.Product_Lexorder"
begin

text \<open>
  A model of \<open>src/table.js\<close> of mongo-table: the factory that provisions a collection
  and its indexes from a schema, and the operations of the table it returns. The
  database handle and the collection are external; what the code sends to them is
  recorded call by call, so that the order of the calls and their absence can be
  stated.
\<close>

section \<open>JavaScript values and objects\<close>

text \<open>
  The values the table layer inspects are scalars: identifiers, field values, option
  flags. \<open>Undefined\<close> is what reading a missing property or an omitted argument yields.
  An object literal is an association list in insertion order; a well-formed object
  has pairwise distinct keys.
\<close>

datatype jsval = Undefined | Null | Bool bool | Num int | Str string

type_synonym obj = "(string \<times> jsval) list"

text \<open>An optional object argument: left out, passed as \<open>null\<close>, or an object.\<close>

datatype 'a optarg = Omitted | NullArg | Given 'a

text \<open>What \<open>assert(v)\<close>, \<open>if (v)\<close> and \<open>a || b\<close> test.\<close>

fun truthy :: "jsval \<Rightarrow> bool" where
  "truthy Undefined = False"
| "truthy Null = False"
| "truthy (Bool b) = b"
| "truthy (Num n) = (n \<noteq> 0)"
| "truthy (Str s) = (s \<noteq> [])"

definition js_or :: "jsval \<Rightarrow> jsval \<Rightarrow> jsval" where
  "js_or a b = (if truthy a then a else b)"

text \<open>Property read \<open>o.k\<close> and property write \<open>o[k] = v\<close>.\<close>

definition field :: "obj \<Rightarrow> string \<Rightarrow> jsval" where
  "field ob k = (case map_of ob k of None \<Rightarrow> Undefined | Some v \<Rightarrow> v)"

definition assign :: "(string \<times> 'a) list \<Rightarrow> string \<times> 'a \<Rightarrow> (string \<times> 'a) list" where
  "assign ob kv = AList.update (fst kv) (snd kv) ob"

text \<open>Object spread \<open>{...a, ...b}\<close>: the properties of \<open>a\<close>, then those of \<open>b\<close> written over them.\<close>

definition spread :: "(string \<times> 'a) list \<Rightarrow> (string \<times> 'a) list \<Rightarrow> (string \<times> 'a) list" where
  "spread a b = foldl assign a b"

datatype error = AssertionError string | TypeError string | StoreError string

fun message :: "error \<Rightarrow> string" where
  "message (AssertionError m) = m"
| "message (TypeError m) = m"
| "message (StoreError m) = m"

section \<open>Calls sent to the store\<close>

text \<open>
  A query filter maps field names to match criteria. Only the criteria that
  \<open>table.js\<close> builds, or that its callers pass in, are represented: equality,
  \<open>$in\<close>, \<open>$all\<close>, and the pair \<open>{$lte: hi, $gte: lo}\<close>. \<open>DropCollection\<close> and
  \<open>DropIndexes\<close> are calls of the driver that \<open>table.js\<close> never makes.
\<close>

datatype cond = CEq jsval | CIn "jsval list" | CAll "jsval list" | CRange int int

type_synonym query = "(string \<times> cond) list"

record find_options =
  sort_by :: "(string \<times> int) option"
  skip_n :: int
  limit_n :: int

datatype call =
    CreateCollection jsval obj
  | CreateIndex jsval obj "obj option"
  | FindOne query
  | ReplaceOne query obj obj
  | FindOneAndUpdate query obj obj
  | DeleteOne query
  | DeleteMany query
  | Find query find_options
  | DropCollection
  | DropIndexes

section \<open>Provisioning (table.js, lines 5-84)\<close>

text \<open>
  The schema after destructuring: \<open>name\<close> and \<open>table\<close> are \<open>Undefined\<close> when the
  schema leaves them out, the four index lists default to the empty list, and
  \<open>options\<close> is the rest of the schema object.
\<close>

record schema =
  name :: jsval
  table :: jsval
  indices :: "string list"
  compound :: "string list list"
  text_idx :: "string list"
  ttl :: "(string \<times> obj optarg) list"
  options :: obj

text \<open>
  The database handle is an external collaborator. During provisioning it is
  observed only through the promises it returns: a call either resolves (\<open>None\<close>)
  or rejects with an error. Its answer may depend on everything sent before, so a
  handle is a function of the earlier calls and the current one.
\<close>

type_synonym db = "call list \<Rightarrow> call \<Rightarrow> error option"

record pstate =
  issued :: "call list"
  console :: "string list"

definition fresh :: pstate where
  "fresh = \<lparr>issued = [], console = []\<rparr>"

type_synonym 'a io = "pstate \<Rightarrow> (error + 'a) \<times> pstate"

definition issue :: "db \<Rightarrow> call \<Rightarrow> unit io" where
  "issue d c st =
     ((case d (issued st) c of None \<Rightarrow> Inr () | Some e \<Rightarrow> Inl e),
      st\<lparr>issued := issued st @ [c]\<rparr>)"

text \<open>\<open>await p; rest\<close>: a rejection of \<open>p\<close> ends the function; otherwise \<open>rest\<close> runs.\<close>

definition and_then :: "(error + unit) \<times> pstate \<Rightarrow> unit io \<Rightarrow> (error + unit) \<times> pstate" where
  "and_then r k = (case fst r of Inl e \<Rightarrow> (Inl e, snd r) | Inr u \<Rightarrow> k (snd r))"

text \<open>
  \<open>Promise.mapSeries(xs, f)\<close>: \<open>f\<close> is called on one element at a time, the next only
  after the promise of the previous one has resolved; the first rejection (or throw)
  rejects the whole series.
\<close>

fun mapSeries :: "'a list \<Rightarrow> ('a \<Rightarrow> unit io) \<Rightarrow> unit io" where
  "mapSeries [] f st = (Inr (), st)"
| "mapSeries (x # xs) f st = and_then (f x st) (mapSeries xs f)"

definition createCollection :: "db \<Rightarrow> jsval \<Rightarrow> obj \<Rightarrow> unit io" where
  "createCollection d nm opts st =
     (case issue d (CreateCollection nm opts) st of
        (Inl err, st') \<Rightarrow>
          (Inr (), st'\<lparr>console := console st' @ [''createCollection.error: '' @ message err]\<rparr>)
      | (Inr u, st') \<Rightarrow> (Inr u, st'))"

text \<open>\<open>createIndex(collection, name, type = 1)\<close>: the default applies to an omitted type.\<close>

definition createIndex :: "db \<Rightarrow> jsval \<Rightarrow> string \<Rightarrow> jsval \<Rightarrow> unit io" where
  "createIndex d col nm ty =
     issue d (CreateIndex col [(nm, if ty = Undefined then Num 1 else ty)] None)"

definition createTtlIndex :: "db \<Rightarrow> jsval \<Rightarrow> string \<Rightarrow> obj optarg \<Rightarrow> unit io" where
  "createTtlIndex d col nm opts st =
     (case (case opts of Omitted \<Rightarrow> Given [] | NullArg \<Rightarrow> NullArg | Given ob \<Rightarrow> Given ob) of
        Given ob \<Rightarrow>
          if truthy (field ob ''expireAfterSeconds'')
          then issue d (CreateIndex col [(nm, Num 1)] (Some ob)) st
          else (Inl (AssertionError ''requires ttl option: expireAfterSeconds''), st)
      | _ \<Rightarrow> (Inl (AssertionError ''requires ttl options''), st))"

definition createTtlIndexes :: "db \<Rightarrow> jsval \<Rightarrow> (string \<times> obj optarg) list \<Rightarrow> unit io" where
  "createTtlIndexes d col indexes =
     mapSeries indexes (\<lambda>entry. createTtlIndex d col (fst entry) (snd entry))"

definition createIndexes :: "db \<Rightarrow> jsval \<Rightarrow> string list \<Rightarrow> unit io" where
  "createIndexes d col indexes = mapSeries indexes (\<lambda>index. createIndex d col index Undefined)"

text \<open>
  \<open>createCompoundIndex\<close> builds its index specification as an object, key by key, and
  the driver reads the keys back by enumeration. Enumeration lists the property names
  that are array indices (canonical decimal numerals below \<open>2^32 - 1\<close>) first, in
  ascending order, and the other names after them in the order they were created.
\<close>

definition digit_of :: "char \<Rightarrow> nat option" where
  "digit_of ch =
     (if ch = CHR ''0'' then Some 0 else if ch = CHR ''1'' then Some 1
      else if ch = CHR ''2'' then Some 2 else if ch = CHR ''3'' then Some 3
      else if ch = CHR ''4'' then Some 4 else if ch = CHR ''5'' then Some 5
      else if ch = CHR ''6'' then Some 6 else if ch = CHR ''7'' then Some 7
      else if ch = CHR ''8'' then Some 8 else if ch = CHR ''9'' then Some 9
      else None)"

fun decimal :: "nat \<Rightarrow> string \<Rightarrow> nat option" where
  "decimal acc [] = Some acc"
| "decimal acc (ch # rest) =
     (case digit_of ch of None \<Rightarrow> None | Some dg \<Rightarrow> decimal (10 * acc + dg) rest)"

definition array_index :: "string \<Rightarrow> nat option" where
  "array_index nm =
     (case nm of
        [] \<Rightarrow> None
      | ch # rest \<Rightarrow>
          if ch = CHR ''0'' \<and> rest \<noteq> [] then None
          else (case decimal 0 nm of
                  None \<Rightarrow> None
                | Some n \<Rightarrow> if n < 4294967295 then Some n else None))"

definition own_keys :: "(string \<times> 'a) list \<Rightarrow> (string \<times> 'a) list" where
  "own_keys ob =
     sort_key (\<lambda>kv. case array_index (fst kv) of None \<Rightarrow> 0 | Some n \<Rightarrow> n)
       (filter (\<lambda>kv. array_index (fst kv) \<noteq> None) ob)
     @ filter (\<lambda>kv. array_index (fst kv) = None) ob"

definition compound_config :: "string list \<Rightarrow> obj" where
  "compound_config flds = own_keys (foldl (\<lambda>result nm. assign result (nm, Num 1)) [] flds)"

definition createCompoundIndex :: "db \<Rightarrow> jsval \<Rightarrow> string list \<Rightarrow> unit io" where
  "createCompoundIndex d col flds = issue d (CreateIndex col (compound_config flds) None)"

definition createCompoundIndexes :: "db \<Rightarrow> jsval \<Rightarrow> string list list \<Rightarrow> unit io" where
  "createCompoundIndexes d col indexes = mapSeries indexes (createCompoundIndex d col)"

definition createTextSearchIndexes :: "db \<Rightarrow> jsval \<Rightarrow> string list \<Rightarrow> unit io" where
  "createTextSearchIndexes d col indexes =
     mapSeries indexes (\<lambda>index. createIndex d col index (Str ''text''))"

text \<open>
  Lines 79-84. \<open>db.collection(name)\<close> only builds a handle and sends nothing, so the
  collection is carried as its name.
\<close>

definition provision :: "db \<Rightarrow> schema \<Rightarrow> unit io" where
  "provision d s st =
     (let col = js_or (name s) (table s) in
      and_then (and_then (and_then (and_then
        (createCollection d col (options s) st)
        (createIndexes d col (indices s)))
        (createCompoundIndexes d col (compound s)))
        (createTextSearchIndexes d col (text_idx s)))
        (createTtlIndexes d col (ttl s)))"

text \<open>The order of calls section 4.1 of the specification lays down.\<close>

definition ttl_valid :: "string \<times> obj optarg \<Rightarrow> bool" where
  "ttl_valid entry =
     (case snd entry of
        Omitted \<Rightarrow> False
      | NullArg \<Rightarrow> False
      | Given ob \<Rightarrow> truthy (field ob ''expireAfterSeconds''))"

definition ttl_call :: "jsval \<Rightarrow> string \<times> obj optarg \<Rightarrow> call" where
  "ttl_call col entry =
     CreateIndex col [(fst entry, Num 1)]
       (case snd entry of Given ob \<Rightarrow> Some ob | _ \<Rightarrow> Some [])"

definition index_plan :: "schema \<Rightarrow> call list" where
  "index_plan s =
     (let col = js_or (name s) (table s) in
      map (\<lambda>i. CreateIndex col [(i, Num 1)] None) (indices s)
      @ map (\<lambda>fs. CreateIndex col (compound_config fs) None) (compound s)
      @ map (\<lambda>t. CreateIndex col [(t, Str ''text'')] None) (text_idx s)
      @ map (ttl_call col) (takeWhile ttl_valid (ttl s)))"

definition plan :: "schema \<Rightarrow> call list" where
  "plan s = CreateCollection (js_or (name s) (table s)) (options s) # index_plan s"

text \<open>
  What is left of a TTL series once its store calls are taken out: the assertion of the
  first entry that is not valid, if there is one.
\<close>

definition ttl_check :: "(string \<times> obj optarg) list \<Rightarrow> unit io" where
  "ttl_check xs st =
     (case dropWhile ttl_valid xs of
        [] \<Rightarrow> (Inr (), st)
      | entry # _ \<Rightarrow>
          (Inl (AssertionError (if snd entry = NullArg then ''requires ttl options''
                                else ''requires ttl option: expireAfterSeconds'')), st))"

subsection \<open>Sample handles and schemas\<close>

definition db_ok :: db where
  "db_ok h c = None"

definition db_unauthorized :: db where
  "db_unauthorized h c =
     (case c of CreateCollection nm opts \<Rightarrow> Some (StoreError ''not authorized on db'')
      | _ \<Rightarrow> None)"

definition db_exists :: db where
  "db_exists h c =
     (case c of CreateCollection nm opts \<Rightarrow> Some (StoreError ''collection already exists'')
      | _ \<Rightarrow> None)"

definition users_schema :: schema where
  "users_schema =
     \<lparr>name = Str ''users'', table = Undefined, indices = [''email''],
      compound = [[''org'', ''role'']], text_idx = [''bio''],
      ttl = [(''seen'', Given [(''expireAfterSeconds'', Num 60)])], options = []\<rparr>"

definition sessions_schema :: schema where
  "sessions_schema =
     \<lparr>name = Str ''sessions'', table = Undefined, indices = [''user''],
      compound = [], text_idx = [],
      ttl = [(''seen'', Given [(''expireAfterSeconds'', Num 60)]), (''created'', Given [])],
      options = []\<rparr>"

section \<open>The collection\<close>

text \<open>
  The operations of a table act on the collection handle \<open>col\<close>. The store behind the
  handle is not part of the repository; it is modelled by the contract its driver
  documents (the README refers to version 3.3 of the Node.js driver), restricted to
  the calls \<open>table.js\<close> makes. A collection holds its documents in insertion order
  and its indexes; \<open>sent\<close> records the calls that reached it.
\<close>

record coll =
  docs :: "obj list"
  indexes :: "(obj \<times> obj option) list"
  sent :: "call list"

type_synonym 'a op = "coll \<Rightarrow> (error + 'a) \<times> coll"

text \<open>
  Serialisation: the driver writes an \<open>undefined\<close> property as \<open>null\<close>, in documents
  and in filters alike.
\<close>

definition bson_val :: "jsval \<Rightarrow> jsval" where
  "bson_val v = (if v = Undefined then Null else v)"

definition bson_doc :: "obj \<Rightarrow> obj" where
  "bson_doc d = map (\<lambda>kv. (fst kv, bson_val (snd kv))) d"

text \<open>
  Matching. A missing field reads as \<open>Undefined\<close>. Equality with \<open>null\<close> also matches
  a missing field; \<open>$all\<close> asks for every listed value at once and matches nothing
  when the list is empty; a numeric range matches numbers only.
\<close>

definition eq_match :: "jsval \<Rightarrow> jsval \<Rightarrow> bool" where
  "eq_match v x = (if bson_val v = Null then x = Null \<or> x = Undefined else x = v)"

fun holds :: "cond \<Rightarrow> jsval \<Rightarrow> bool" where
  "holds (CEq v) x = eq_match v x"
| "holds (CIn vs) x = list_ex (\<lambda>v. eq_match v x) vs"
| "holds (CAll vs) x = (vs \<noteq> [] \<and> list_all (\<lambda>v. eq_match v x) vs)"
| "holds (CRange hi lo) x = (case x of Num n \<Rightarrow> lo \<le> n \<and> n \<le> hi | _ \<Rightarrow> False)"

definition matches :: "query \<Rightarrow> obj \<Rightarrow> bool" where
  "matches q d = list_all (\<lambda>kc. holds (snd kc) (field d (fst kc))) q"

definition by_id :: "jsval \<Rightarrow> query" where
  "by_id v = [(''_id'', CEq v)]"

fun replace_first :: "('a \<Rightarrow> bool) \<Rightarrow> 'a \<Rightarrow> 'a list \<Rightarrow> 'a list" where
  "replace_first P y [] = []"
| "replace_first P y (x # xs) = (if P x then y # xs else x # replace_first P y xs)"

fun remove_first :: "('a \<Rightarrow> bool) \<Rightarrow> 'a list \<Rightarrow> 'a list" where
  "remove_first P [] = []"
| "remove_first P (x # xs) = (if P x then xs else x # remove_first P xs)"

text \<open>The order of values of different types in a sort: null, numbers, strings, booleans.\<close>

fun sort_rank :: "jsval \<Rightarrow> int \<times> int \<times> string" where
  "sort_rank Undefined = (0, 0, [])"
| "sort_rank Null = (0, 0, [])"
| "sort_rank (Num n) = (1, n, [])"
| "sort_rank (Str s) = (2, 0, s)"
| "sort_rank (Bool b) = (3, (if b then 1 else 0), [])"

definition sorted_docs :: "(string \<times> int) option \<Rightarrow> obj list \<Rightarrow> obj list" where
  "sorted_docs spec ds =
     (case spec of
        None \<Rightarrow> ds
      | Some kd \<Rightarrow>
          if snd kd < 0 then rev (sort_key (\<lambda>d. sort_rank (field d (fst kd))) ds)
          else sort_key (\<lambda>d. sort_rank (field d (fst kd))) ds)"

subsection \<open>Driver calls\<close>

definition findOne :: "query \<Rightarrow> obj option op" where
  "findOne q c = (Inr (find (matches q) (docs c)), c\<lparr>sent := sent c @ [FindOne q]\<rparr>)"

definition deleteOne :: "query \<Rightarrow> unit op" where
  "deleteOne q c =
     (Inr (), c\<lparr>docs := remove_first (matches q) (docs c), sent := sent c @ [DeleteOne q]\<rparr>)"

text \<open>\<open>deleteMany\<close> removes documents and nothing else; it resolves with the number removed.\<close>

definition deleteMany :: "query \<Rightarrow> nat op" where
  "deleteMany q c =
     (Inr (length (filter (matches q) (docs c))),
      c\<lparr>docs := filter (\<lambda>d. \<not> matches q d) (docs c), sent := sent c @ [DeleteMany q]\<rparr>)"

definition find_toArray :: "query \<Rightarrow> find_options \<Rightarrow> obj list op" where
  "find_toArray q fo c =
     (let hits = drop (nat (skip_n fo)) (sorted_docs (sort_by fo) (filter (matches q) (docs c)))
      in (Inr (if limit_n fo = 0 then hits else take (nat \<bar>limit_n fo\<bar>) hits),
          c\<lparr>sent := sent c @ [Find q fo]\<rparr>))"

text \<open>
  \<open>col.replaceOne({_id: v}, repl, opts)\<close>. The stored document is the replacement
  under the identifier of the filter, the identifier first; a replacement that
  carries another \<open>_id\<close> is rejected, since the field cannot change. Without a match
  the document is inserted when \<open>opts.upsert\<close> is set, and nothing happens otherwise.
\<close>

definition stored :: "jsval \<Rightarrow> obj \<Rightarrow> obj" where
  "stored k body = (''_id'', k) # filter (\<lambda>kv. fst kv \<noteq> ''_id'') body"

definition id_clash :: "jsval \<Rightarrow> obj \<Rightarrow> bool" where
  "id_clash k body = (map_of body ''_id'' \<notin> {None, Some k})"

definition replaceOne :: "jsval \<Rightarrow> obj \<Rightarrow> obj \<Rightarrow> unit op" where
  "replaceOne v repl opts c =
     (let k = bson_val v; r = bson_doc repl;
          c' = c\<lparr>sent := sent c @ [ReplaceOne (by_id v) repl opts]\<rparr>
      in case find (matches (by_id v)) (docs c) of
           Some d \<Rightarrow>
             if id_clash (field d ''_id'') r
             then (Inl (StoreError ''the immutable field _id was found to have been altered''), c')
             else (Inr (), c'\<lparr>docs := replace_first (matches (by_id v))
                                       (stored (field d ''_id'') r) (docs c)\<rparr>)
         | None \<Rightarrow>
             if truthy (field opts ''upsert'')
             then (if id_clash k r
                   then (Inl (StoreError ''the immutable field _id was found to have been altered''), c')
                   else (Inr (), c'\<lparr>docs := docs c @ [stored k r]\<rparr>))
             else (Inr (), c'))"

text \<open>
  \<open>col.findOneAndUpdate({_id: v}, {$set: props}, opts)\<close>. The update writes the
  properties of \<open>props\<close> over the matched document. The driver resolves with a row
  whose \<open>value\<close> is the document as it was before the update, unless the options say
  \<open>returnOriginal: false\<close> (or, from version 4, \<open>returnDocument: 'after'\<close>); it reads
  no option called \<open>returnNewDocument\<close>.
\<close>

definition wants_new :: "obj \<Rightarrow> bool" where
  "wants_new opts =
     (field opts ''returnOriginal'' = Bool False \<or> field opts ''returnDocument'' = Str ''after'')"

definition findOneAndUpdate :: "jsval \<Rightarrow> obj \<Rightarrow> obj \<Rightarrow> obj option op" where
  "findOneAndUpdate v props opts c =
     (let k = bson_val v; s = bson_doc props;
          c' = c\<lparr>sent := sent c @ [FindOneAndUpdate (by_id v) props opts]\<rparr>
      in case find (matches (by_id v)) (docs c) of
           Some d \<Rightarrow>
             if id_clash (field d ''_id'') s
             then (Inl (StoreError ''the immutable field _id was found to have been altered''), c')
             else (Inr (Some (if wants_new opts then spread d s else d)),
                   c'\<lparr>docs := replace_first (matches (by_id v)) (spread d s) (docs c)\<rparr>)
         | None \<Rightarrow>
             if truthy (field opts ''upsert'')
             then (if id_clash k s
                   then (Inl (StoreError ''the immutable field _id was found to have been altered''), c')
                   else (Inr (if wants_new opts then Some (spread [(''_id'', k)] s) else None),
                         c'\<lparr>docs := docs c @ [spread [(''_id'', k)] s]\<rparr>))
             else (Inr None, c'))"

section \<open>Table operations (table.js, lines 86-261)\<close>

definition get :: "jsval \<Rightarrow> obj option op" where
  "get ident c =
     (if truthy ident then findOne (by_id ident) c
      else (Inl (AssertionError ''requires id''), c))"

text \<open>The projection passed by \<open>has\<close> only trims the payload; the result is tested for presence.\<close>

definition has :: "jsval \<Rightarrow> bool op" where
  "has ident c =
     (case findOne (by_id ident) c of
        (Inl e, c') \<Rightarrow> (Inl e, c')
      | (Inr result, c') \<Rightarrow> (Inr (if result \<noteq> None then True else False), c'))"

text \<open>\<open>set(id, props, opts = {upsert: true})\<close>; \<open>None\<close> stands for an omitted \<open>opts\<close>.\<close>

definition set_doc :: "jsval \<Rightarrow> obj \<Rightarrow> obj option \<Rightarrow> obj op" where
  "set_doc ident props opts c =
     (let os = (case opts of None \<Rightarrow> [(''upsert'', Bool True)] | Some given \<Rightarrow> given);
          query = [(''_id'', if truthy ident then ident else field props ''id'')]
      in case replaceOne (field query ''_id'') props os c of
           (Inl e, c') \<Rightarrow> (Inl e, c')
         | (Inr u, c') \<Rightarrow> (Inr (spread query props), c'))"

definition upsert :: "obj \<Rightarrow> obj option \<Rightarrow> obj op" where
  "upsert props opts = set_doc Undefined props opts"

definition update :: "jsval \<Rightarrow> obj \<Rightarrow> obj option \<Rightarrow> obj option op" where
  "update ident props opts c =
     (let os = (case opts of None \<Rightarrow> [(''upsert'', Bool True)] | Some given \<Rightarrow> given)
      in if truthy ident
         then findOneAndUpdate ident props (spread os [(''returnNewDocument'', Bool True)]) c
         else (Inl (AssertionError ''requires id''), c))"

definition del :: "jsval \<Rightarrow> obj op" where
  "del ident c =
     (case deleteOne (by_id ident) c of
        (Inl e, c') \<Rightarrow> (Inl e, c')
      | (Inr u, c') \<Rightarrow> (Inr [(''_id'', ident), (''id'', ident)], c'))"

text \<open>\<open>deleteAll(ids = [])\<close>: the filter is \<open>{_id: {$all: ids}}\<close>.\<close>

definition deleteAll :: "jsval list option \<Rightarrow> nat op" where
  "deleteAll ids =
     deleteMany [(''_id'', CAll (case ids of None \<Rightarrow> [] | Some given \<Rightarrow> given))]"

text \<open>\<open>drop(query = {})\<close>.\<close>

definition drop_docs :: "query option \<Rightarrow> nat op" where
  "drop_docs query = deleteMany (case query of None \<Rightarrow> [] | Some given \<Rightarrow> given)"

text \<open>
  \<open>getBySortedBetween(filter = {}, max, min, skip, limit, sortKey)\<close>. The bounds are
  passed explicitly; the numeric defaults of the source (\<open>Date.now()\<close>, 0, 0, 100,
  \<open>'created'\<close>) satisfy the assertions.
\<close>

definition getBySortedBetween ::
    "query optarg \<Rightarrow> int \<Rightarrow> int \<Rightarrow> int \<Rightarrow> int \<Rightarrow> string \<Rightarrow> obj list op" where
  "getBySortedBetween flt mx mn skip limit sortKey c =
     (case (case flt of Omitted \<Rightarrow> Given [] | NullArg \<Rightarrow> NullArg | Given f \<Rightarrow> Given f) of
        Given f \<Rightarrow>
          if \<not> mx > 0 then (Inl (AssertionError ''requires max''), c)
          else if \<not> mn \<ge> 0 then (Inl (AssertionError ''requires min''), c)
          else if \<not> skip \<ge> 0 then (Inl (AssertionError ''requires skip''), c)
          else if \<not> limit \<ge> 1 then (Inl (AssertionError ''requires limit''), c)
          else find_toArray (spread f [(sortKey, CRange mx mn)])
                 \<lparr>sort_by = Some (sortKey, - 1), skip_n = skip, limit_n = limit\<rparr> c
      | _ \<Rightarrow> (Inl (AssertionError ''requires filter''), c))"

text \<open>
  \<open>push(id, key, items)\<close>; \<open>items\<close> is \<open>Some xs\<close> for an array and \<open>None\<close> for anything
  else. After its assertions the function calls \<open>table.updateOne\<close>, where \<open>table\<close> is
  the variable destructured from the schema at line 8, and not the handle \<open>col\<close>. The
  function is given the value of that variable. For a schema that names its
  collection there, or leaves \<open>table\<close> out, the value is a scalar: the property read
  fails on \<open>undefined\<close> and \<open>null\<close>, and on any other scalar \<open>updateOne\<close> is
  \<open>undefined\<close> and cannot be called. A caller may also have put a collection handle
  of its own there; such a handle is known by what an \<open>updateOne\<close> sent to it does:
  how its promise settles, and what becomes of the documents of the provisioned
  collection (nothing, unless it is a handle on that same collection).
\<close>

record update_call =
  target :: jsval
  array_field :: jsval
  each :: "jsval list"

datatype tableval =
    Scalar jsval
  | Handle "update_call \<Rightarrow> obj list \<Rightarrow> error option \<times> obj list"

definition push :: "tableval \<Rightarrow> jsval \<Rightarrow> jsval \<Rightarrow> jsval list option \<Rightarrow> unit op" where
  "push tbl ident key items c =
     (if \<not> truthy ident then (Inl (AssertionError ''requires id''), c)
      else if \<not> truthy key then (Inl (AssertionError ''requires field key''), c)
      else
        (case items of
           None \<Rightarrow> (Inl (AssertionError ''requires tags''), c)
         | Some xs \<Rightarrow>
             (case tbl of
                Scalar v \<Rightarrow>
                  if v = Undefined
                  then (Inl (TypeError ''Cannot read properties of undefined (reading 'updateOne')''), c)
                  else if v = Null
                  then (Inl (TypeError ''Cannot read properties of null (reading 'updateOne')''), c)
                  else (Inl (TypeError ''table.updateOne is not a function''), c)
              | Handle h \<Rightarrow>
                  (case h \<lparr>target = ident, array_field = key, each = xs\<rparr> (docs c) of
                     (None, ds) \<Rightarrow> (Inr (), c\<lparr>docs := ds\<rparr>)
                   | (Some e, ds) \<Rightarrow> (Inl e, c\<lparr>docs := ds\<rparr>)))))"

subsection \<open>Sample collections\<close>

definition empty_coll :: coll where
  "empty_coll = \<lparr>docs = [], indexes = [], sent = []\<rparr>"

definition abc_coll :: coll where
  "abc_coll =
     \<lparr>docs = [[(''_id'', Str ''a''), (''n'', Num 1)],
              [(''_id'', Str ''b''), (''n'', Num 2)],
              [(''_id'', Str ''c''), (''n'', Num 3)]],
      indexes = [([(''n'', Num 1)], None)],
      sent = []\<rparr>"

section \<open>Provisioning: properties\<close>

lemma and_then_Inr [simp]: "and_then (Inr u, st) k = k st"
  by (simp add: and_then_def)

lemma and_then_Inl [simp]: "and_then (Inl e, st) k = (Inl e, st)"
  by (simp add: and_then_def)

lemma and_then_assoc: "and_then (and_then r k1) k2 = and_then r (\<lambda>st. and_then (k1 st) k2)"
  by (cases r) (auto simp: and_then_def split: sum.splits)

lemma mapSeries_map: "mapSeries xs (\<lambda>x. f (g x)) st = mapSeries (map g xs) f st"
  by (induction xs arbitrary: st) (auto simp: and_then_def split: sum.splits)

lemma mapSeries_append:
  "mapSeries (xs @ ys) f st = and_then (mapSeries xs f st) (mapSeries ys f)"
proof (induction xs arbitrary: st)
  case Nil
  show ?case by simp
next
  case (Cons x xs)
  show ?case
  proof (cases "f x st")
    case (Pair r st')
    then show ?thesis using Cons by (cases r) simp_all
  qed
qed

text \<open>
  What a series of plain store calls leaves behind: a prefix of the calls was sent, every
  call but the last one sent had resolved, and the outcome is that of the last one.
\<close>

lemma send_series:
  "\<exists>n\<le>length cs.
      issued (snd (mapSeries cs (issue d) st)) = issued st @ take n cs
    \<and> console (snd (mapSeries cs (issue d) st)) = console st
    \<and> (\<forall>j. Suc j < n \<longrightarrow> d (issued st @ take j cs) (cs ! j) = None)
    \<and> (fst (mapSeries cs (issue d) st) = Inr () \<longrightarrow>
          n = length cs \<and> (\<forall>j<n. d (issued st @ take j cs) (cs ! j) = None))
    \<and> (\<forall>e. fst (mapSeries cs (issue d) st) = Inl e \<longrightarrow>
          0 < n \<and> d (issued st @ take (n - 1) cs) (cs ! (n - 1)) = Some e)"
proof (induction cs arbitrary: st)
  case Nil
  show ?case by simp
next
  case (Cons c cs)
  let ?st1 = "st\<lparr>issued := issued st @ [c]\<rparr>"
  show ?case
  proof (cases "d (issued st) c")
    case (Some e)
    then have run: "mapSeries (c # cs) (issue d) st = (Inl e, ?st1)"
      by (simp add: issue_def)
    show ?thesis
      unfolding run by (rule exI [of _ 1]) (simp add: Some)
  next
    case None
    then have run: "mapSeries (c # cs) (issue d) st = mapSeries cs (issue d) ?st1"
      by (simp add: issue_def)
    from Cons.IH [of ?st1] obtain n where n: "n \<le> length cs"
      and tr: "issued (snd (mapSeries cs (issue d) ?st1)) = issued ?st1 @ take n cs"
      and co: "console (snd (mapSeries cs (issue d) ?st1)) = console ?st1"
      and aw: "\<forall>j. Suc j < n \<longrightarrow> d (issued ?st1 @ take j cs) (cs ! j) = None"
      and ok: "fst (mapSeries cs (issue d) ?st1) = Inr () \<longrightarrow>
          n = length cs \<and> (\<forall>j<n. d (issued ?st1 @ take j cs) (cs ! j) = None)"
      and bad: "\<forall>e. fst (mapSeries cs (issue d) ?st1) = Inl e \<longrightarrow>
          0 < n \<and> d (issued ?st1 @ take (n - 1) cs) (cs ! (n - 1)) = Some e"
      by blast
    show ?thesis
    proof (rule exI [of _ "Suc n"], intro conjI)
      show "Suc n \<le> length (c # cs)" using n by simp
      show "issued (snd (mapSeries (c # cs) (issue d) st)) = issued st @ take (Suc n) (c # cs)"
        unfolding run using tr by simp
      show "console (snd (mapSeries (c # cs) (issue d) st)) = console st"
        unfolding run using co by simp
      show "\<forall>j. Suc j < Suc n \<longrightarrow> d (issued st @ take j (c # cs)) ((c # cs) ! j) = None"
      proof (intro allI impI)
        fix j assume "Suc j < Suc n"
        then show "d (issued st @ take j (c # cs)) ((c # cs) ! j) = None"
          using aw None by (cases j) auto
      qed
      show "fst (mapSeries (c # cs) (issue d) st) = Inr () \<longrightarrow>
          Suc n = length (c # cs) \<and> (\<forall>j<Suc n. d (issued st @ take j (c # cs)) ((c # cs) ! j) = None)"
      proof (intro impI conjI allI)
        assume r: "fst (mapSeries (c # cs) (issue d) st) = Inr ()"
        then have r': "fst (mapSeries cs (issue d) ?st1) = Inr ()" unfolding run .
        then show "Suc n = length (c # cs)" using ok by simp
        fix j assume "j < Suc n"
        then show "d (issued st @ take j (c # cs)) ((c # cs) ! j) = None"
          using ok r' None by (cases j) auto
      qed
      show "\<forall>e. fst (mapSeries (c # cs) (issue d) st) = Inl e \<longrightarrow>
          0 < Suc n \<and> d (issued st @ take (Suc n - 1) (c # cs)) ((c # cs) ! (Suc n - 1)) = Some e"
      proof (intro allI impI)
        fix e assume "fst (mapSeries (c # cs) (issue d) st) = Inl e"
        then have "fst (mapSeries cs (issue d) ?st1) = Inl e" unfolding run .
        then have "0 < n \<and> d (issued ?st1 @ take (n - 1) cs) (cs ! (n - 1)) = Some e"
          using bad by simp
        then show "0 < Suc n \<and> d (issued st @ take (Suc n - 1) (c # cs)) ((c # cs) ! (Suc n - 1)) = Some e"
          by (cases n) auto
      qed
    qed
  qed
qed


lemma createTtlIndex_valid:
  "ttl_valid entry \<Longrightarrow>
     createTtlIndex d col (fst entry) (snd entry) st = issue d (ttl_call col entry) st"
  by (cases "snd entry") (auto simp: ttl_valid_def createTtlIndex_def ttl_call_def)

lemma createTtlIndex_invalid:
  "\<not> ttl_valid entry \<Longrightarrow>
     createTtlIndex d col (fst entry) (snd entry) st =
       (Inl (AssertionError (if snd entry = NullArg then ''requires ttl options''
                             else ''requires ttl option: expireAfterSeconds'')), st)"
  by (cases "snd entry") (auto simp: ttl_valid_def createTtlIndex_def field_def)

lemma ttl_series:
  "createTtlIndexes d col xs st =
     and_then (mapSeries (map (ttl_call col) (takeWhile ttl_valid xs)) (issue d) st) (ttl_check xs)"
  unfolding createTtlIndexes_def
proof (induction xs arbitrary: st)
  case Nil
  show ?case by (simp add: ttl_check_def)
next
  case (Cons x xs)
  show ?case
  proof (cases "ttl_valid x")
    case False
    then show ?thesis
      by (simp add: createTtlIndex_invalid ttl_check_def)
  next
    case True
    have chk: "ttl_check (x # xs) = ttl_check xs"
      using True by (auto simp: ttl_check_def fun_eq_iff)
    show ?thesis
    proof (cases "issue d (ttl_call col x) st")
      case (Pair r st')
      then show ?thesis
        using True Cons.IH [of st'] by (cases r) (simp_all add: createTtlIndex_valid chk)
    qed
  qed
qed

lemma ttl_check_state [simp]: "snd (ttl_check xs st) = st"
  by (simp add: ttl_check_def split: list.splits)

lemma createCollection_fresh:
  "createCollection d col opts fresh =
     (Inr (), \<lparr>issued = [CreateCollection col opts],
               console = (case d [] (CreateCollection col opts) of
                            None \<Rightarrow> []
                          | Some e \<Rightarrow> [''createCollection.error: '' @ message e])\<rparr>)"
  by (simp add: createCollection_def issue_def fresh_def split: option.splits)

lemma createIndexes_series:
  "createIndexes d col xs = mapSeries (map (\<lambda>i. CreateIndex col [(i, Num 1)] None) xs) (issue d)"
  by (rule ext) (simp add: createIndexes_def createIndex_def mapSeries_map [of _ "issue d", symmetric])

lemma createCompoundIndexes_series:
  "createCompoundIndexes d col xs =
     mapSeries (map (\<lambda>fs. CreateIndex col (compound_config fs) None) xs) (issue d)"
  by (rule ext)
    (simp add: createCompoundIndexes_def createCompoundIndex_def [abs_def]
      mapSeries_map [of _ "issue d", symmetric])

lemma createTextSearchIndexes_series:
  "createTextSearchIndexes d col xs =
     mapSeries (map (\<lambda>t. CreateIndex col [(t, Str ''text'')] None) xs) (issue d)"
  by (rule ext)
    (simp add: createTextSearchIndexes_def createIndex_def mapSeries_map [of _ "issue d", symmetric])

lemma createTtlIndexes_series:
  "createTtlIndexes d col xs =
     (\<lambda>st. and_then (mapSeries (map (ttl_call col) (takeWhile ttl_valid xs)) (issue d) st)
        (ttl_check xs))"
  by (rule ext) (rule ttl_series)

lemma provision_series:
  "provision d s fresh =
     and_then
       (mapSeries (index_plan s) (issue d)
          \<lparr>issued = [CreateCollection (js_or (name s) (table s)) (options s)],
           console = (case d [] (CreateCollection (js_or (name s) (table s)) (options s)) of
                        None \<Rightarrow> []
                      | Some e \<Rightarrow> [''createCollection.error: '' @ message e])\<rparr>)
       (ttl_check (ttl s))"
  by (simp add: provision_def Let_def createCollection_fresh createIndexes_series
      createCompoundIndexes_series createTextSearchIndexes_series createTtlIndexes_series
      index_plan_def mapSeries_append and_then_assoc)


lemma provision_shape:
  "\<exists>n\<le>length (index_plan s).
      issued (snd (provision d s fresh)) = take (Suc n) (plan s)
    \<and> (\<forall>j. Suc j < n \<longrightarrow> d (take (Suc j) (plan s)) (plan s ! Suc j) = None)
    \<and> (fst (provision d s fresh) = Inr () \<longrightarrow> n = length (index_plan s))"
proof -
  let ?cc = "CreateCollection (js_or (name s) (table s)) (options s)"
  let ?st1 = "\<lparr>issued = [?cc],
           console = (case d [] ?cc of None \<Rightarrow> []
                      | Some e \<Rightarrow> [''createCollection.error: '' @ message e])\<rparr>"
  let ?r = "mapSeries (index_plan s) (issue d) ?st1"
  from send_series [of "index_plan s" d ?st1] obtain n where n: "n \<le> length (index_plan s)"
    and tr: "issued (snd ?r) = issued ?st1 @ take n (index_plan s)"
    and aw: "\<forall>j. Suc j < n \<longrightarrow> d (issued ?st1 @ take j (index_plan s)) (index_plan s ! j) = None"
    and ok: "fst ?r = Inr () \<longrightarrow> n = length (index_plan s)"
    by blast
  have p: "provision d s fresh = and_then ?r (ttl_check (ttl s))"
    by (rule provision_series)
  have snd_p: "snd (provision d s fresh) = snd ?r"
    unfolding p by (cases ?r; cases "fst ?r") (auto simp: and_then_def)
  have fst_p: "fst (provision d s fresh) = Inr () \<Longrightarrow> fst ?r = Inr ()"
    unfolding p by (cases ?r; cases "fst ?r") (auto simp: and_then_def)
  show ?thesis
  proof (rule exI [of _ n], intro conjI)
    show "n \<le> length (index_plan s)" by (rule n)
    show "issued (snd (provision d s fresh)) = take (Suc n) (plan s)"
      using tr by (simp add: snd_p plan_def)
    show "\<forall>j. Suc j < n \<longrightarrow> d (take (Suc j) (plan s)) (plan s ! Suc j) = None"
      using aw by (simp add: plan_def)
    show "fst (provision d s fresh) = Inr () \<longrightarrow> n = length (index_plan s)"
      using ok fst_p by blast
  qed
qed

lemma mapSeries_issue_Cons:
  "mapSeries (c # cs) (issue d) st =
     (case d (issued st) c of
        None \<Rightarrow> mapSeries cs (issue d) (st\<lparr>issued := issued st @ [c]\<rparr>)
      | Some e \<Rightarrow> (Inl e, st\<lparr>issued := issued st @ [c]\<rparr>))"
  by (cases "d (issued st) c") (simp_all add: issue_def)

lemma series_agree:
  assumes "\<forall>c\<in>set cs. \<forall>h. d h c = d' h c" and "issued st = issued st'"
  shows "fst (mapSeries cs (issue d) st) = fst (mapSeries cs (issue d') st')
       \<and> issued (snd (mapSeries cs (issue d) st)) = issued (snd (mapSeries cs (issue d') st'))"
  using assms
proof (induction cs arbitrary: st st')
  case Nil
  then show ?case by simp
next
  case (Cons c cs)
  have same: "d' (issued st') c = d (issued st) c"
    using Cons.prems by simp
  have IH: "fst (mapSeries cs (issue d) (st\<lparr>issued := issued st @ [c]\<rparr>))
            = fst (mapSeries cs (issue d') (st'\<lparr>issued := issued st' @ [c]\<rparr>))
        \<and> issued (snd (mapSeries cs (issue d) (st\<lparr>issued := issued st @ [c]\<rparr>)))
            = issued (snd (mapSeries cs (issue d') (st'\<lparr>issued := issued st' @ [c]\<rparr>)))"
    using Cons.prems by (intro Cons.IH) simp_all
  show ?case
    unfolding mapSeries_issue_Cons same
    using IH Cons.prems(2) by (cases "d (issued st) c") simp_all
qed

lemma index_plan_calls:
  "c \<in> set (index_plan s) \<Longrightarrow> \<exists>col spec opts. c = CreateIndex col spec opts"
  by (auto simp: index_plan_def Let_def ttl_call_def)

lemma and_then_check:
  "fst (and_then r (ttl_check xs)) = (case fst r of Inl e \<Rightarrow> Inl e | Inr u \<Rightarrow> fst (ttl_check xs (snd r)))"
  "snd (and_then r (ttl_check xs)) = snd r"
  by (cases r; cases "fst r"; simp add: and_then_def)+

lemma ttl_check_fst: "fst (ttl_check xs st) = fst (ttl_check xs st')"
  unfolding ttl_check_def by (cases "dropWhile ttl_valid xs") (simp_all only: list.case fst_conv)

lemma series_all_resolve:
  assumes "\<forall>c\<in>set cs. \<forall>h. d h c = None"
  shows "mapSeries cs (issue d) st = (Inr (), st\<lparr>issued := issued st @ cs\<rparr>)"
  using assms
proof (induction cs arbitrary: st)
  case Nil
  show ?case by simp
next
  case (Cons c cs)
  have "d (issued st) c = None"
    using Cons.prems by simp
  moreover have "mapSeries cs (issue d) (st\<lparr>issued := issued st @ [c]\<rparr>)
      = (Inr (), st\<lparr>issued := issued st @ [c]\<rparr>\<lparr>issued := issued (st\<lparr>issued := issued st @ [c]\<rparr>) @ cs\<rparr>)"
    using Cons.prems by (intro Cons.IH) simp
  ultimately show ?case
    unfolding mapSeries_issue_Cons by simp
qed

lemma ttl_check_invalid:
  assumes "entry \<in> set xs" and "\<not> ttl_valid entry"
  shows "\<exists>m. ttl_check xs st = (Inl (AssertionError m), st)"
proof -
  from assms have "dropWhile ttl_valid xs \<noteq> []"
    by auto
  then obtain e rest where "dropWhile ttl_valid xs = e # rest"
    by (cases "dropWhile ttl_valid xs") auto
  then show ?thesis
    unfolding ttl_check_def by (simp only: list.case) blast
qed

lemma lacking_invalid:
  assumes "snd entry = Omitted
         \<or> (\<exists>ob. snd entry = Given ob \<and> map_of ob ''expireAfterSeconds'' = None)"
  shows "\<not> ttl_valid entry"
  using assms by (auto simp: ttl_valid_def field_def)

text \<open>The keys of a compound index are sent in enumeration order, not in declaration order.\<close>

lemma compound_config_enumeration:
  "compound_config [''b'', ''10'', ''2'', ''01'', ''b'']
     = [(''2'', Num 1), (''10'', Num 1), (''b'', Num 1), (''01'', Num 1)]"
  by (simp add: compound_config_def own_keys_def array_index_def digit_of_def assign_def)

subsection \<open>Order of the provisioning calls\<close>



subsection \<open>Failure of the collection creation\<close>

text \<open>
  Claim C3, amended. The handler attached to \<open>db.createCollection\<close> catches every
  rejection, not only the one for an existing collection: the message is logged and
  provisioning goes on. Two handles that answer the index calls alike therefore give
  the same outcome and the same calls, whatever either answers to the collection
  creation, and the console holds the line of the rejection, if there was one.
\<close>

theorem creation_failure_swallowed:
  assumes "\<forall>h col spec opts. d h (CreateIndex col spec opts) = d' h (CreateIndex col spec opts)"
  shows "fst (provision d s fresh) = fst (provision d' s fresh)
       \<and> issued (snd (provision d s fresh)) = issued (snd (provision d' s fresh))
       \<and> console (snd (provision d s fresh)) =
           (case d [] (CreateCollection (js_or (name s) (table s)) (options s)) of
              None \<Rightarrow> []
            | Some e \<Rightarrow> [''createCollection.error: '' @ message e])"
proof -
  let ?cc = "CreateCollection (js_or (name s) (table s)) (options s)"
  let ?log = "\<lambda>d::db. case d [] ?cc of None \<Rightarrow> []
                      | Some e \<Rightarrow> [''createCollection.error: '' @ message e]"
  let ?st = "\<lambda>d. \<lparr>issued = [?cc], console = ?log d\<rparr>"
  let ?r = "\<lambda>d. mapSeries (index_plan s) (issue d) (?st d)"
  have agree: "\<forall>c\<in>set (index_plan s). \<forall>h. d h c = d' h c"
    using assms by (auto dest: index_plan_calls)
  have eq: "fst (?r d) = fst (?r d') \<and> issued (snd (?r d)) = issued (snd (?r d'))"
    by (rule series_agree [OF agree]) simp
  have co: "console (snd (?r d)) = ?log d"
    using send_series [of "index_plan s" d "?st d"] by auto
  have chk: "fst (ttl_check (ttl s) (snd (?r d))) = fst (ttl_check (ttl s) (snd (?r d')))"
    by (rule ttl_check_fst)
  have out: "fst (provision d0 s fresh) =
      (case fst (?r d0) of Inl e \<Rightarrow> Inl e
       | Inr u \<Rightarrow> fst (ttl_check (ttl s) (snd (?r d0))))" for d0
    by (simp add: provision_series and_then_check)
  have "fst (provision d s fresh) = fst (provision d' s fresh)"
    unfolding out using eq chk by (cases "fst (?r d')") simp_all
  moreover have "issued (snd (provision d s fresh)) = issued (snd (provision d' s fresh))"
    using eq by (simp add: provision_series and_then_check)
  moreover have "console (snd (provision d s fresh)) = ?log d"
    using co by (simp add: provision_series and_then_check)
  ultimately show ?thesis by simp
qed

theorem creation_failure_swallowed_witness:
  "fst (provision db_exists users_schema fresh) = fst (provision db_ok users_schema fresh)
   \<and> issued (snd (provision db_exists users_schema fresh))
       = issued (snd (provision db_ok users_schema fresh))
   \<and> console (snd (provision db_exists users_schema fresh))
       = [''createCollection.error: collection already exists'']"
proof -
  have agree: "\<forall>h col spec opts.
      db_exists h (CreateIndex col spec opts) = db_ok h (CreateIndex col spec opts)"
    by (simp add: db_exists_def db_ok_def)
  have rejected: "db_exists [] (CreateCollection nm opts)
      = Some (StoreError ''collection already exists'')" for nm opts
    by (simp add: db_exists_def)
  from creation_failure_swallowed [OF agree, of users_schema] show ?thesis
    by (simp add: rejected)
qed

theorem other_creation_failure_counterexample:
  "fst (provision db_unauthorized users_schema fresh) = Inr ()
   \<and> CreateIndex (Str ''users'') [(''email'', Num 1)] None
       \<in> set (issued (snd (provision db_unauthorized users_schema fresh)))
   \<and> console (snd (provision db_unauthorized users_schema fresh))
       = [''createCollection.error: not authorized on db'']"
  by (simp add: provision_def users_schema_def db_unauthorized_def fresh_def createCollection_def
      createIndexes_def createCompoundIndexes_def createTextSearchIndexes_def
      createTtlIndexes_def createIndex_def createCompoundIndex_def createTtlIndex_def
      issue_def and_then_def js_or_def field_def compound_config_def assign_def Let_def
        own_keys_def array_index_def digit_of_def)

subsection \<open>TTL entries without \<open>expireAfterSeconds\<close>\<close>

text \<open>
  Claim C4, amended. When some TTL entry of the schema has no \<open>expireAfterSeconds\<close>
  among its options (or no options), provisioning fails. The check sits in
  \<open>createTtlIndex\<close>, which runs in the last step: the collection creation has been
  sent by then, and the calls sent are a prefix of the plan, which stops before the
  first TTL entry that is not valid. When the store resolves every index call, the
  failure is the assertion and the plan was sent in full.
\<close>

theorem ttl_precondition_late:
  assumes "entry \<in> set (ttl s)"
    and "snd entry = Omitted
         \<or> (\<exists>ob. snd entry = Given ob \<and> map_of ob ''expireAfterSeconds'' = None)"
  shows "(\<exists>e. fst (provision d s fresh) = Inl e)
       \<and> take 1 (issued (snd (provision d s fresh)))
           = [CreateCollection (js_or (name s) (table s)) (options s)]
       \<and> prefix (issued (snd (provision d s fresh))) (plan s)
       \<and> ((\<forall>h col spec opts. d h (CreateIndex col spec opts) = None) \<longrightarrow>
            (\<exists>m. fst (provision d s fresh) = Inl (AssertionError m))
            \<and> issued (snd (provision d s fresh)) = plan s)"
proof -
  let ?cc = "CreateCollection (js_or (name s) (table s)) (options s)"
  let ?st = "\<lparr>issued = [?cc],
             console = (case d [] ?cc of None \<Rightarrow> []
                        | Some e \<Rightarrow> [''createCollection.error: '' @ message e])\<rparr>"
  let ?r = "mapSeries (index_plan s) (issue d) ?st"
  have inv: "\<not> ttl_valid entry"
    using assms(2) by (rule lacking_invalid)
  obtain m where m: "ttl_check (ttl s) (snd ?r) = (Inl (AssertionError m), snd ?r)"
    using ttl_check_invalid [OF assms(1) inv] by blast
  have out: "fst (provision d s fresh) =
      (case fst ?r of Inl e \<Rightarrow> Inl e | Inr u \<Rightarrow> Inl (AssertionError m))"
    using m by (cases "fst ?r") (simp_all add: provision_series and_then_check)
  have fails: "\<exists>e. fst (provision d s fresh) = Inl e"
    unfolding out by (cases "fst ?r") simp_all
  from provision_shape [of s d] obtain n where
    tr: "issued (snd (provision d s fresh)) = take (Suc n) (plan s)"
    by blast
  have first: "take 1 (issued (snd (provision d s fresh))) = [?cc]"
    unfolding tr by (simp add: plan_def)
  have pre: "prefix (issued (snd (provision d s fresh))) (plan s)"
    unfolding tr by (rule take_is_prefix)
  have full: "(\<exists>m. fst (provision d s fresh) = Inl (AssertionError m))
            \<and> issued (snd (provision d s fresh)) = plan s"
    if ok: "\<forall>h col spec opts. d h (CreateIndex col spec opts) = None"
  proof -
    have "\<forall>c\<in>set (index_plan s). \<forall>h. d h c = None"
      using ok by (auto dest: index_plan_calls)
    then have r: "?r = (Inr (), ?st\<lparr>issued := issued ?st @ index_plan s\<rparr>)"
      by (rule series_all_resolve)
    have "fst (provision d s fresh) = Inl (AssertionError m)"
      unfolding out by (simp add: r)
    moreover have "issued (snd (provision d s fresh)) = plan s"
      by (simp add: provision_series and_then_check r plan_def)
    ultimately show ?thesis by blast
  qed
  from fails first pre full show ?thesis by blast
qed

theorem ttl_precondition_late_witness:
  "fst (provision db_ok sessions_schema fresh)
     = Inl (AssertionError ''requires ttl option: expireAfterSeconds'')
   \<and> prefix (issued (snd (provision db_ok sessions_schema fresh))) (plan sessions_schema)
   \<and> issued (snd (provision db_ok sessions_schema fresh)) = plan sessions_schema
   \<and> length (plan sessions_schema) = 3"
proof -
  have mem: "(''created'', Given []) \<in> set (ttl sessions_schema)"
    by (simp add: sessions_schema_def)
  have lack: "snd (''created'', Given ([]::obj)) = Omitted
      \<or> (\<exists>ob. snd (''created'', Given ([]::obj)) = Given ob
             \<and> map_of ob ''expireAfterSeconds'' = None)"
    by simp
  have ok: "\<forall>h col spec opts. db_ok h (CreateIndex col spec opts) = None"
    by (simp add: db_ok_def)
  have run: "fst (provision db_ok sessions_schema fresh)
     = Inl (AssertionError ''requires ttl option: expireAfterSeconds'')"
    by (simp add: provision_def sessions_schema_def db_ok_def fresh_def createCollection_def
      createIndexes_def createCompoundIndexes_def createTextSearchIndexes_def
      createTtlIndexes_def createIndex_def createTtlIndex_def
      issue_def and_then_def js_or_def field_def Let_def)
  have len: "length (plan sessions_schema) = 3"
    by (simp add: plan_def index_plan_def sessions_schema_def Let_def ttl_valid_def field_def)
  from ttl_precondition_late [OF mem lack, of db_ok] ok run len show ?thesis
    by simp
qed

theorem ttl_precondition_counterexample:
  "fst (provision db_ok sessions_schema fresh)
     = Inl (AssertionError ''requires ttl option: expireAfterSeconds'')
   \<and> issued (snd (provision db_ok sessions_schema fresh)) =
       [CreateCollection (Str ''sessions'') [],
        CreateIndex (Str ''sessions'') [(''user'', Num 1)] None,
        CreateIndex (Str ''sessions'') [(''seen'', Num 1)] (Some [(''expireAfterSeconds'', Num 60)])]"
  by (simp add: provision_def sessions_schema_def db_ok_def fresh_def createCollection_def
      createIndexes_def createCompoundIndexes_def createTextSearchIndexes_def
      createTtlIndexes_def createIndex_def createTtlIndex_def
      issue_def and_then_def js_or_def field_def Let_def)

section \<open>Objects and matching: auxiliary facts\<close>

lemma update_absent: "k \<notin> fst ` set al \<Longrightarrow> AList.update k v al = al @ [(k, v)]"
  by (induction al) auto

lemma assign_head: "assign ((k, v) # pre) (k, w) = (k, w) # pre"
  by (simp add: assign_def)

lemma assign_new:
  "k1 \<noteq> k \<Longrightarrow> k1 \<notin> fst ` set pre \<Longrightarrow>
     assign ((k, v) # pre) (k1, v1) = (k, v) # pre @ [(k1, v1)]"
  by (simp add: assign_def update_absent)

lemma spread_over_id:
  assumes "distinct (map fst d)"
    and "k \<notin> fst ` set pre"
    and "fst ` set pre \<inter> fst ` set d = {}"
    and "map_of d k = None \<or> map_of d k = Some v"
  shows "foldl assign ((k, v) # pre) d = (k, v) # pre @ filter (\<lambda>kv. fst kv \<noteq> k) d"
  using assms
proof (induction d arbitrary: pre)
  case Nil
  show ?case by simp
next
  case (Cons e d)
  obtain k1 v1 where e: "e = (k1, v1)" by (cases e)
  show ?case
  proof (cases "k1 = k")
    case True
    with Cons.prems(4) e have v1: "v1 = v" by simp
    have rest: "map_of d k = None"
      using Cons.prems(1) True e by (simp add: map_of_eq_None_iff)
    have "foldl assign ((k, v) # pre) d = (k, v) # pre @ filter (\<lambda>kv. fst kv \<noteq> k) d"
      using Cons.prems rest by (intro Cons.IH) auto
    then show ?thesis
      using True v1 e by (simp add: assign_head)
  next
    case False
    have k1: "k1 \<notin> fst ` set pre"
      using Cons.prems(3) e by auto
    have rest: "map_of d k = None \<or> map_of d k = Some v"
      using Cons.prems(4) False e by simp
    have "foldl assign ((k, v) # (pre @ [(k1, v1)])) d
        = (k, v) # (pre @ [(k1, v1)]) @ filter (\<lambda>kv. fst kv \<noteq> k) d"
      using Cons.prems rest False e by (intro Cons.IH) auto
    then show ?thesis
      using False e k1 by (simp add: assign_new)
  qed
qed

lemma spread_id_stored:
  assumes "distinct (map fst d)" and "map_of d ''_id'' = None \<or> map_of d ''_id'' = Some i"
  shows "spread [(''_id'', i)] d = stored i d"
  using spread_over_id [of d "''_id''" "[]" i] assms by (simp add: spread_def stored_def)

lemma spread_new_key: "k \<notin> fst ` set f \<Longrightarrow> spread f [(k, v)] = f @ [(k, v)]"
  by (simp add: spread_def assign_def update_absent)

lemma bson_doc_defined: "Undefined \<notin> snd ` set d \<Longrightarrow> bson_doc d = d"
  by (induction d) (auto simp: bson_doc_def bson_val_def)

lemma truthy_bson: "truthy i \<Longrightarrow> bson_val i = i \<and> i \<noteq> Null \<and> i \<noteq> Undefined"
  by (cases i) (auto simp: bson_val_def)

lemma matches_by_id: "truthy i \<Longrightarrow> matches (by_id i) d \<longleftrightarrow> field d ''_id'' = i"
  by (auto simp: matches_def by_id_def eq_match_def dest: truthy_bson)

lemma field_stored [simp]: "field (stored k body) ''_id'' = k"
  by (simp add: stored_def field_def)

lemma matches_append: "matches (q @ q') d \<longleftrightarrow> matches q d \<and> matches q' d"
  by (simp add: matches_def)

lemma holds_range: "holds (CRange hi lo) x \<longleftrightarrow> (\<exists>n. x = Num n \<and> lo \<le> n \<and> n \<le> hi)"
  by (cases x) auto

lemma matches_with_range:
  "k \<notin> fst ` set f \<Longrightarrow>
     matches (spread f [(k, CRange hi lo)]) d
       \<longleftrightarrow> matches f d \<and> (\<exists>n. field d k = Num n \<and> lo \<le> n \<and> n \<le> hi)"
  by (simp add: spread_new_key matches_append) (simp add: matches_def holds_range del: holds.simps)

lemma find_replace_first:
  "find P xs = Some x \<Longrightarrow> P y \<Longrightarrow> find P (replace_first P y xs) = Some y"
  by (induction xs) (auto split: if_splits)

lemma find_append_new: "find P xs = None \<Longrightarrow> P y \<Longrightarrow> find P (xs @ [y]) = Some y"
  by (induction xs) (auto split: if_splits)

lemma find_Some_holds: "find P xs = Some x \<Longrightarrow> P x"
  by (induction xs) (auto split: if_splits)

lemma eq_match_two:
  assumes "bson_val a \<noteq> bson_val b"
  shows "\<not> (eq_match a x \<and> eq_match b x)"
  using assms by (auto simp: eq_match_def bson_val_def split: if_splits)

lemma sort_rank_Num: "sort_rank (Num y) \<le> sort_rank (Num x) \<longleftrightarrow> y \<le> x"
  by (auto simp: less_eq_prod_def less_prod_def)

lemma descending_numbers:
  assumes "\<forall>d\<in>set ds. \<exists>n. field d k = Num n"
  shows "sorted_wrt (\<lambda>a b. \<exists>x y. field a k = Num x \<and> field b k = Num y \<and> y \<le> x)
           (rev (sort_key (\<lambda>d. sort_rank (field d k)) ds))"
proof -
  let ?key = "\<lambda>d. sort_rank (field d k)"
  have "sorted (map ?key (sort_key ?key ds))"
    by (rule sorted_sort_key)
  then have "sorted_wrt (\<lambda>a b. ?key b \<le> ?key a) (rev (sort_key ?key ds))"
    by (simp add: sorted_map sorted_wrt_rev)
  then show ?thesis
  proof (rule sorted_wrt_mono_rel [rotated])
    fix a b
    assume a: "a \<in> set (rev (sort_key ?key ds))" and b: "b \<in> set (rev (sort_key ?key ds))"
      and le: "?key b \<le> ?key a"
    from a assms obtain x where "field a k = Num x" by auto
    moreover from b assms obtain y where "field b k = Num y" by auto
    ultimately show "\<exists>x y. field a k = Num x \<and> field b k = Num y \<and> y \<le> x"
      using le by (auto simp: sort_rank_Num)
  qed
qed

section \<open>Table operations: properties\<close>

subsection \<open>\<open>set\<close> followed by \<open>get\<close>\<close>

lemma replaceOne_upsert:
  assumes "truthy i" and "Undefined \<notin> snd ` set d"
    and "map_of d ''_id'' = None \<or> map_of d ''_id'' = Some i"
  shows "fst (replaceOne i d [(''upsert'', Bool True)] c) = Inr ()
       \<and> find (matches (by_id i)) (docs (snd (replaceOne i d [(''upsert'', Bool True)] c)))
           = Some (stored i d)"
proof -
  have new: "matches (by_id i) (stored i d)"
    using assms(1) by (simp add: matches_by_id)
  have noclash: "\<not> id_clash i d"
    using assms(3) by (auto simp: id_clash_def)
  note [simp] = truthy_bson [OF assms(1)] bson_doc_defined [OF assms(2)]
  show ?thesis
  proof (cases "find (matches (by_id i)) (docs c)")
    case None
    then show ?thesis
      using noclash new by (simp add: replaceOne_def Let_def field_def find_append_new)
  next
    case (Some d0)
    then have "field d0 ''_id'' = i"
      using assms(1) by (auto dest: find_Some_holds simp: matches_by_id)
    then show ?thesis
      using Some noclash new by (simp add: replaceOne_def Let_def find_replace_first)
  qed
qed

text \<open>
  Claim C1, amended. For every identifier \<open>i\<close> that is truthy and every document \<open>d\<close>
  whose \<open>_id\<close> field, if it has one, is \<open>i\<close> and none of whose fields is \<open>undefined\<close>,
  \<open>set(i, d)\<close> succeeds and returns \<open>{_id: i, ...d}\<close>, and a following \<open>get(i)\<close>
  returns that same document. (The hypothesis on the keys of \<open>d\<close> only says that \<open>d\<close>
  is an object.)
\<close>

theorem set_then_get:
  assumes "truthy i"
    and "distinct (map fst d)"
    and "Undefined \<notin> snd ` set d"
    and "map_of d ''_id'' = None \<or> map_of d ''_id'' = Some i"
  shows "fst (set_doc i d None c) = Inr (spread [(''_id'', i)] d)
       \<and> fst (get i (snd (set_doc i d None c))) = Inr (Some (spread [(''_id'', i)] d))"
proof -
  let ?r = "replaceOne i d [(''upsert'', Bool True)] c"
  from replaceOne_upsert [OF assms(1,3,4), of c]
  have ok: "fst ?r = Inr ()"
    and found: "find (matches (by_id i)) (docs (snd ?r)) = Some (stored i d)"
    by simp_all
  have same: "spread [(''_id'', i)] d = stored i d"
    using assms(2,4) by (rule spread_id_stored)
  obtain c1 where r: "?r = (Inr (), c1)"
    using ok by (cases ?r) auto
  have set_run: "set_doc i d None c = (Inr (spread [(''_id'', i)] d), c1)"
    using assms(1) r by (simp add: set_doc_def field_def)
  have "fst (get i c1) = Inr (Some (stored i d))"
    using assms(1) found r by (simp add: get_def findOne_def)
  then show ?thesis
    by (simp add: set_run same)
qed

theorem set_then_get_witness:
  "fst (set_doc (Str ''b'') [(''n'', Num 7), (''tag'', Str ''x'')] None abc_coll)
     = Inr [(''_id'', Str ''b''), (''n'', Num 7), (''tag'', Str ''x'')]
   \<and> fst (get (Str ''b'') (snd (set_doc (Str ''b'') [(''n'', Num 7), (''tag'', Str ''x'')] None abc_coll)))
     = Inr (Some [(''_id'', Str ''b''), (''n'', Num 7), (''tag'', Str ''x'')])"
proof -
  have "spread [(''_id'', Str ''b'')] [(''n'', Num 7), (''tag'', Str ''x'')]
      = [(''_id'', Str ''b''), (''n'', Num 7), (''tag'', Str ''x'')]"
    by (simp add: spread_def assign_def)
  with set_then_get [of "Str ''b''" "[(''n'', Num 7), (''tag'', Str ''x'')]" abc_coll]
  show ?thesis by simp
qed

text \<open>
  The claim without the restriction on \<open>i\<close> fails: \<open>0\<close> is a valid identifier of the
  store, but \<open>set\<close> takes a falsy \<open>id\<close> for a missing one and falls back on
  \<open>props.id\<close>, and \<open>get\<close> refuses it.
\<close>

theorem set_falsy_id_counterexample:
  "fst (set_doc (Num 0) [(''n'', Num 7)] None empty_coll) = Inr [(''_id'', Undefined), (''n'', Num 7)]
   \<and> fst (get (Num 0) (snd (set_doc (Num 0) [(''n'', Num 7)] None empty_coll)))
       = Inl (AssertionError ''requires id'')"
  by (simp add: set_doc_def get_def replaceOne_def empty_coll_def Let_def field_def by_id_def
      matches_def eq_match_def bson_val_def bson_doc_def id_clash_def stored_def spread_def
      assign_def)

text \<open>The two conditions on \<open>d\<close> are needed as well.\<close>

lemma set_other_id_rejected:
  "fst (set_doc (Str ''a'') [(''_id'', Str ''zz''), (''n'', Num 7)] None abc_coll)
     = Inl (StoreError ''the immutable field _id was found to have been altered'')"
  by (simp add: set_doc_def replaceOne_def abc_coll_def Let_def field_def by_id_def
      matches_def eq_match_def bson_val_def bson_doc_def id_clash_def)

lemma set_undefined_field_reads_null:
  "fst (get (Str ''u'') (snd (set_doc (Str ''u'') [(''x'', Undefined)] None empty_coll)))
     = Inr (Some [(''_id'', Str ''u''), (''x'', Null)])"
  by (simp add: set_doc_def get_def findOne_def replaceOne_def empty_coll_def Let_def field_def
      by_id_def matches_def eq_match_def bson_val_def bson_doc_def id_clash_def stored_def)

subsection \<open>\<open>deleteAll\<close>\<close>

text \<open>
  Claim C2 asks that \<open>deleteAll(ids)\<close> remove exactly the documents whose identifier
  is a member of \<open>ids\<close>. The filter is built with \<open>$all\<close>, not \<open>$in\<close> as in \<open>getAll\<close>:
  a document would need an identifier equal to every member at once. With the two
  identifiers \<open>a\<close> and \<open>b\<close>, both present in the collection, nothing is removed.
\<close>

theorem deleteAll_two_ids_deletes_nothing:
  "deleteAll (Some [Str ''a'', Str ''b'']) abc_coll
     = (Inr 0, abc_coll\<lparr>sent := [DeleteMany [(''_id'', CAll [Str ''a'', Str ''b''])]]\<rparr>)"
  by (simp add: deleteAll_def deleteMany_def abc_coll_def matches_def field_def eq_match_def
      bson_val_def)

text \<open>The same holds for every list that contains two different identifiers.\<close>

lemma deleteAll_distinct_ids:
  assumes "a \<in> set ids" and "b \<in> set ids" and "bson_val a \<noteq> bson_val b"
  shows "deleteAll (Some ids) c
       = (Inr 0, c\<lparr>sent := sent c @ [DeleteMany [(''_id'', CAll ids)]]\<rparr>)"
proof -
  have "\<not> matches [(''_id'', CAll ids)] d" for d
    using assms eq_match_two [OF assms(3), of "field d ''_id''"]
    by (auto simp: matches_def list_all_iff)
  then show ?thesis
    by (simp add: deleteAll_def deleteMany_def)
qed

subsection \<open>\<open>push\<close>\<close>

text \<open>
  Claim C5 asks that \<open>push(id, key, items)\<close> add the items to the array field of the
  document in the provisioned collection. The call goes to \<open>table\<close>, the field of the
  schema, which is no collection handle: with valid arguments \<open>push\<close> ends in a
  \<open>TypeError\<close> and the collection is left as it was.
\<close>

theorem push_never_reaches_collection:
  "push (Scalar (table users_schema)) (Str ''a'') (Str ''tags'') (Some [Str ''x'', Str ''y''])
       abc_coll
     = (Inl (TypeError ''Cannot read properties of undefined (reading 'updateOne')''), abc_coll)"
  by (simp add: push_def users_schema_def)

text \<open>
  Whenever \<open>table\<close> is a scalar, \<open>push\<close> fails and leaves the collection as it was;
  and whatever \<open>table\<close> is, no call goes through the handle \<open>col\<close>.
\<close>

lemma push_never_sends: "\<exists>e. push (Scalar v) i k items c = (Inl e, c)"
  by (simp add: push_def split: option.splits)

lemma push_bypasses_col:
  "sent (snd (push tbl i k items c)) = sent c \<and> indexes (snd (push tbl i k items c)) = indexes c"
  by (cases tbl) (auto simp: push_def split: option.splits prod.splits)

subsection \<open>\<open>update\<close>\<close>

text \<open>
  Claim C6 asks that \<open>update(id, partialDoc)\<close> merge the fields and return the
  document after the merge. The merge is applied, but the option the function adds,
  \<open>returnNewDocument\<close>, is not one the driver reads: the value returned is the
  document as it was before the update.
\<close>

theorem update_returns_old_document:
  "update (Str ''a'') [(''m'', Num 5)] None abc_coll
     = (Inr (Some [(''_id'', Str ''a''), (''n'', Num 1)]),
        abc_coll\<lparr>docs := [[(''_id'', Str ''a''), (''n'', Num 1), (''m'', Num 5)],
                          [(''_id'', Str ''b''), (''n'', Num 2)],
                          [(''_id'', Str ''c''), (''n'', Num 3)]],
                 sent := [FindOneAndUpdate [(''_id'', CEq (Str ''a''))] [(''m'', Num 5)]
                            [(''upsert'', Bool True), (''returnNewDocument'', Bool True)]]\<rparr>)"
  by (simp add: update_def findOneAndUpdate_def abc_coll_def Let_def field_def by_id_def
      matches_def eq_match_def bson_val_def bson_doc_def id_clash_def spread_def assign_def
      wants_new_def)

text \<open>
  With the default options every successful \<open>update\<close> returns what \<open>findOne\<close> would
  have returned before it, which is \<open>null\<close> when the document was created by the
  upsert.
\<close>

lemma wants_new_default:
  "\<not> wants_new (spread [(''upsert'', Bool True)] [(''returnNewDocument'', Bool True)])"
  by (simp add: wants_new_def spread_def assign_def field_def)

lemma update_default_value:
  assumes "truthy i" and "fst (update i props None c) = Inr r"
  shows "r = find (matches (by_id i)) (docs c)"
  using assms wants_new_default
  by (auto simp: update_def findOneAndUpdate_def Let_def field_def spread_def assign_def
      split: option.splits if_splits)

subsection \<open>Operations without an identifier\<close>

lemma replaceOne_sent:
  "sent (snd (replaceOne v repl opts c)) = sent c @ [ReplaceOne (by_id v) repl opts]"
  by (simp add: replaceOne_def Let_def split: option.splits)

lemma set_doc_sent:
  "sent (snd (set_doc i props None c))
     = sent c @ [ReplaceOne (by_id (if truthy i then i else field props ''id'')) props
                   [(''upsert'', Bool True)]]"
proof -
  let ?v = "if truthy i then i else field props ''id''"
  have "snd (set_doc i props None c) = snd (replaceOne ?v props [(''upsert'', Bool True)] c)"
    by (cases "replaceOne ?v props [(''upsert'', Bool True)] c")
      (auto simp: set_doc_def Let_def field_def split: sum.splits)
  then show ?thesis
    by (simp add: replaceOne_sent)
qed

text \<open>
  Claim C7, amended. \<open>get\<close> and \<open>update\<close> fail with the precondition failure
  \<open>requires id\<close>, and send nothing to the store, whenever their \<open>id\<close> argument is
  falsy (missing, \<open>null\<close>, empty, zero). \<open>set\<close> has no such guard: with a falsy \<open>id\<close>
  it sends its replace call under the identifier \<open>props.id\<close>, present or not.
\<close>

theorem id_guard_get_update:
  assumes "\<not> truthy i"
  shows "get i c = (Inl (AssertionError ''requires id''), c)
       \<and> update i props opts c = (Inl (AssertionError ''requires id''), c)
       \<and> sent (snd (set_doc i props None c))
           = sent c @ [ReplaceOne (by_id (field props ''id'')) props [(''upsert'', Bool True)]]"
  using assms by (simp add: get_def update_def set_doc_sent)

theorem id_guard_get_update_witness:
  "get Undefined abc_coll = (Inl (AssertionError ''requires id''), abc_coll)
   \<and> update (Str []) [(''n'', Num 9)] None abc_coll = (Inl (AssertionError ''requires id''), abc_coll)
   \<and> sent (snd (set_doc Undefined [(''id'', Str ''k'')] None abc_coll))
       = [ReplaceOne [(''_id'', CEq (Str ''k''))] [(''id'', Str ''k'')] [(''upsert'', Bool True)]]"
proof -
  have a: "\<not> truthy Undefined" and b: "\<not> truthy (Str [])"
    by simp_all
  from id_guard_get_update [OF a, of abc_coll "[(''id'', Str ''k'')]" None]
    id_guard_get_update [OF b, of abc_coll "[(''n'', Num 9)]" None]
  show ?thesis
    by (simp add: abc_coll_def field_def by_id_def)
qed

text \<open>
  With no identifier at all, \<open>set\<close>, \<open>has\<close> and \<open>delete\<close> still send their call and
  resolve.
\<close>

theorem unresolved_id_counterexample:
  "fst (set_doc Undefined [(''n'', Num 7)] None empty_coll) = Inr [(''_id'', Undefined), (''n'', Num 7)]
   \<and> sent (snd (set_doc Undefined [(''n'', Num 7)] None empty_coll))
       = [ReplaceOne [(''_id'', CEq Undefined)] [(''n'', Num 7)] [(''upsert'', Bool True)]]
   \<and> has Undefined empty_coll
       = (Inr False, empty_coll\<lparr>sent := [FindOne [(''_id'', CEq Undefined)]]\<rparr>)
   \<and> del Undefined empty_coll
       = (Inr [(''_id'', Undefined), (''id'', Undefined)],
          empty_coll\<lparr>sent := [DeleteOne [(''_id'', CEq Undefined)]]\<rparr>)"
  by (simp add: set_doc_def has_def del_def findOne_def deleteOne_def replaceOne_def
      empty_coll_def Let_def field_def by_id_def matches_def eq_match_def bson_val_def
      bson_doc_def id_clash_def stored_def spread_def assign_def)

subsection \<open>\<open>getBySortedBetween\<close>\<close>

text \<open>
  Claim C8 asks that, within the bounds, \<open>getBySortedBetween\<close> return exactly the
  documents that match the filter and whose \<open>sortKey\<close> value lies in \<open>[min, max]\<close>.
  The query is built as \<open>{...filter, [sortKey]: range}\<close>, and an object keeps one value
  per key: a criterion of the filter on \<open>sortKey\<close> itself is overwritten by the range.
  With the filter \<open>{n: 1}\<close> and the sort key \<open>n\<close>, the two documents returned below
  do not match the filter.
\<close>

theorem getBySortedBetween_drops_filter_on_sort_key:
  "fst (getBySortedBetween (Given [(''n'', CEq (Num 1))]) 3 2 0 100 ''n'' abc_coll)
     = Inr [[(''_id'', Str ''c''), (''n'', Num 3)], [(''_id'', Str ''b''), (''n'', Num 2)]]
   \<and> \<not> matches [(''n'', CEq (Num 1))] [(''_id'', Str ''c''), (''n'', Num 3)]
   \<and> \<not> matches [(''n'', CEq (Num 1))] [(''_id'', Str ''b''), (''n'', Num 2)]"
  by (simp add: getBySortedBetween_def find_toArray_def abc_coll_def Let_def spread_def
      assign_def matches_def field_def sorted_docs_def less_eq_prod_def less_prod_def
      eq_match_def bson_val_def)

text \<open>
  For a filter with no criterion on \<open>sortKey\<close> the function does what the claim says:
  within the bounds it returns the documents that match the filter and whose
  \<open>sortKey\<close> value is a number in \<open>[min, max]\<close>, in descending order of that value,
  without the first \<open>skip\<close> and cut after \<open>limit\<close>; outside the bounds it fails with a
  precondition failure and the collection receives no call.
\<close>

lemma getBySortedBetween_range:
  assumes "flt = Given f \<or> flt = Omitted \<and> f = []"
    and "sortKey \<notin> fst ` set f"
  shows "(0 < mx \<and> 0 \<le> mn \<and> 0 \<le> skip \<and> 1 \<le> limit \<longrightarrow>
           (\<exists>full.
               mset full = mset (filter (\<lambda>d. matches f d
                                   \<and> (\<exists>n. field d sortKey = Num n \<and> mn \<le> n \<and> n \<le> mx)) (docs c))
             \<and> sorted_wrt (\<lambda>a b. \<exists>x y. field a sortKey = Num x \<and> field b sortKey = Num y \<and> y \<le> x) full
             \<and> fst (getBySortedBetween flt mx mn skip limit sortKey c)
                 = Inr (take (nat limit) (drop (nat skip) full))))
       \<and> (\<not> (0 < mx \<and> 0 \<le> mn \<and> 0 \<le> skip \<and> 1 \<le> limit) \<longrightarrow>
           (\<exists>m. getBySortedBetween flt mx mn skip limit sortKey c = (Inl (AssertionError m), c)))"
proof (intro conjI impI)
  let ?sel = "filter (\<lambda>d. matches f d
                 \<and> (\<exists>n. field d sortKey = Num n \<and> mn \<le> n \<and> n \<le> mx)) (docs c)"
  let ?full = "rev (sort_key (\<lambda>d. sort_rank (field d sortKey)) ?sel)"
  have arg: "(case flt of Omitted \<Rightarrow> Given [] | NullArg \<Rightarrow> NullArg | Given f \<Rightarrow> Given f) = Given f"
    using assms(1) by auto
  {
    assume bounds: "0 < mx \<and> 0 \<le> mn \<and> 0 \<le> skip \<and> 1 \<le> limit"
    have hits: "filter (matches (spread f [(sortKey, CRange mx mn)])) (docs c) = ?sel"
      by (intro filter_cong refl) (simp add: matches_with_range [OF assms(2)])
    have run: "fst (getBySortedBetween flt mx mn skip limit sortKey c)
        = Inr (take (nat limit) (drop (nat skip) ?full))"
      using bounds by (simp add: getBySortedBetween_def arg find_toArray_def Let_def hits sorted_docs_def)
    have "mset ?full = mset ?sel"
      by simp
    moreover have "sorted_wrt (\<lambda>a b. \<exists>x y. field a sortKey = Num x \<and> field b sortKey = Num y \<and> y \<le> x) ?full"
      by (rule descending_numbers) auto
    ultimately show "\<exists>full. mset full = mset ?sel
             \<and> sorted_wrt (\<lambda>a b. \<exists>x y. field a sortKey = Num x \<and> field b sortKey = Num y \<and> y \<le> x) full
             \<and> fst (getBySortedBetween flt mx mn skip limit sortKey c)
                 = Inr (take (nat limit) (drop (nat skip) full))"
      using run by blast
  }
  {
    assume "\<not> (0 < mx \<and> 0 \<le> mn \<and> 0 \<le> skip \<and> 1 \<le> limit)"
    then show "\<exists>m. getBySortedBetween flt mx mn skip limit sortKey c = (Inl (AssertionError m), c)"
      by (auto simp: getBySortedBetween_def arg)
  }
qed

lemma getBySortedBetween_range_example:
  "fst (getBySortedBetween (Given [(''_id'', CIn [Str ''a'', Str ''b'', Str ''c''])])
          3 1 1 1 ''n'' abc_coll)
     = Inr [[(''_id'', Str ''b''), (''n'', Num 2)]]
   \<and> getBySortedBetween (Given [(''_id'', CIn [Str ''a'', Str ''b'', Str ''c''])])
          3 1 1 0 ''n'' abc_coll
     = (Inl (AssertionError ''requires limit''), abc_coll)
   \<and> getBySortedBetween (Given [(''_id'', CIn [Str ''a'', Str ''b'', Str ''c''])])
          3 (- 1) 1 1 ''n'' abc_coll
     = (Inl (AssertionError ''requires min''), abc_coll)"
  by (simp add: getBySortedBetween_def find_toArray_def abc_coll_def Let_def spread_def
      assign_def matches_def field_def sorted_docs_def less_eq_prod_def less_prod_def
      eq_match_def bson_val_def)

subsection \<open>\<open>drop\<close>\<close>

text \<open>
  Claim C10. \<open>drop(filter)\<close> removes the documents that match the filter, all of
  them when it is called without an argument, and leaves the collection and its
  indexes in place: the one call sent is a \<open>deleteMany\<close>.
\<close>

theorem drop_deletes_documents_only:
  "docs (snd (drop_docs q c))
     = filter (\<lambda>d. \<not> matches (case q of None \<Rightarrow> [] | Some f \<Rightarrow> f) d) (docs c)
   \<and> docs (snd (drop_docs None c)) = []
   \<and> indexes (snd (drop_docs q c)) = indexes c
   \<and> sent (snd (drop_docs q c)) = sent c @ [DeleteMany (case q of None \<Rightarrow> [] | Some f \<Rightarrow> f)]
   \<and> fst (drop_docs q c)
     = Inr (length (filter (matches (case q of None \<Rightarrow> [] | Some f \<Rightarrow> f)) (docs c)))"
  by (simp add: drop_docs_def deleteMany_def matches_def)

theorem drop_deletes_documents_only_witness:
  "docs (snd (drop_docs (Some [(''n'', CIn [Num 1, Num 3])]) abc_coll))
     = [[(''_id'', Str ''b''), (''n'', Num 2)]]
   \<and> docs (snd (drop_docs None abc_coll)) = []
   \<and> indexes (snd (drop_docs None abc_coll)) = [([(''n'', Num 1)], None)]
   \<and> sent (snd (drop_docs None abc_coll)) = [DeleteMany []]"
proof -
  have sel: "filter (\<lambda>d. \<not> matches [(''n'', CIn [Num 1, Num 3])] d) (docs abc_coll)
      = [[(''_id'', Str ''b''), (''n'', Num 2)]]"
    by (simp add: abc_coll_def matches_def field_def eq_match_def bson_val_def)
  from drop_deletes_documents_only [of "Some [(''n'', CIn [Num 1, Num 3])]" abc_coll]
    drop_deletes_documents_only [of None abc_coll] sel
  show ?thesis
    by (simp add: abc_coll_def)
qed

end
